theory Spec2Isabelle
  imports Main "HOL-Library.AList" "HOL-Library.Sublist"
begin

section \<open>Common data\<close>

type_synonym path = string

text \<open>
  Failures of the build and of the runtime, as values.  \<open>MissingManifestEntry p\<close> is the
  error of the identity reconciler (its message names the path \<open>p\<close>).  \<open>TypeError prop\<close>
  is what JavaScript raises when the property \<open>prop\<close> is read from \<open>undefined\<close>
  (``Cannot read properties of undefined (reading 'prop')''): it carries the property
  name only.  \<open>ImportError\<close> is a rejected dynamic import.
\<close>

datatype error = MissingManifestEntry path | TypeError string | ImportError string

text \<open>JavaScript truthiness of a value of type \<open>string | null\<close>: \<open>null\<close> and \<open>''\<close> are falsy.\<close>

fun truthy :: "string option \<Rightarrow> bool" where
  "truthy None = False"
| "truthy (Some s) = (s \<noteq> [])"

text \<open>\<open>k.startsWith(p)\<close>\<close>

definition startsWith :: "string \<Rightarrow> string \<Rightarrow> bool" where
  "startsWith k p = prefix p k"

section \<open>The inputs of the build\<close>

text \<open>
  An entry of a bundler manifest (the spec's artifact graph): the compiled file of a
  source module (the \<open>file\<close> of a manifest entry), its static imports, its stylesheet
  assets and its font assets.  The client manifest and the server manifest both have
  this shape.
\<close>

record chunk =
  compiledFile :: path
  importedModules :: "path list"
  cssAssets :: "path list"
  fontAssets :: "path list"
  isDynamicEntry :: bool

text \<open>A manifest is a JSON object: its entries in order, looked up by \<open>map_of\<close>.\<close>

type_synonym artifact_graph = "(path \<times> chunk) list"

text \<open>An asset of the client build, as far as the inliner reads it.\<close>

record output_asset =
  fileName :: string
  source :: string

text \<open>A chunk of the compiler's output, as far as \<open>get_methods\<close> reads it.\<close>

record output_chunk =
  facadeModuleId :: "string option"
  exports :: "string list"

text \<open>A node of the route manifest: the three optional file roles.\<close>

record page_node =
  component :: "path option"
  universal :: "path option"
  server :: "path option"

record route_endpoint =
  ep_file :: path

record route =
  endpoint :: "route_endpoint option"
  leaf :: "page_node option"

section \<open>Identity reconciler and artifact-graph resolver\<close>

text \<open>
  Modelled from the spec: \<open>resolve_symlinks\<close> is imported from \<open>./utils.js\<close>, which is not
  among the sources.  \<open>canon\<close> is the physical-filesystem identity of a path.  The lookup
  is re-keyed against the graph's own entries resolved the same way: the result is the
  first entry of the graph whose key has the identity of the given path, with that key.
  When there is none, the failure is \<open>MissingManifestEntry\<close> with the path asked for.
\<close>

definition resolve_symlinks ::
  "(path \<Rightarrow> path) \<Rightarrow> artifact_graph \<Rightarrow> path \<Rightarrow> error + (path \<times> chunk)" where
  "resolve_symlinks canon g p =
    (case find (\<lambda>(k, c). canon k = canon p) g of
       None \<Rightarrow> Inl (MissingManifestEntry p)
     | Some kc \<Rightarrow> Inr kc)"

text \<open>A set with insertion order (a JavaScript \<open>Set\<close>): adding a member again changes nothing.\<close>

definition set_add :: "'a \<Rightarrow> 'a list \<Rightarrow> 'a list" where
  "set_add x xs = (if x \<in> set xs then xs else xs @ [x])"

text \<open>
  Modelled from the spec: the state of one resolution (the resolver is part of
  \<open>find_deps\<close> in \<open>./utils.js\<close>, which is not among the sources): the visited
  identities in the order of the visits, and the three result sets.
\<close>

record resolver =
  seen :: "path list"
  chunk_files :: "path list"
  stylesheets :: "path list"
  fonts :: "path list"

definition resolver_init :: resolver where
  "resolver_init = \<lparr>seen = [], chunk_files = [], stylesheets = [], fonts = []\<rparr>"

text \<open>
  Modelled from the spec: the contribution of a node that is visited (the resolver is
  part of \<open>find_deps\<close> in \<open>./utils.js\<close>, which is not among the sources).  The node is
  recorded as visited and adds its stylesheet assets and its font assets to the result
  sets; its compiled file is added to the imported chunks unless it is the entry.
\<close>

definition visit :: "path \<Rightarrow> path \<Rightarrow> chunk \<Rightarrow> resolver \<Rightarrow> resolver" where
  "visit entry k c st =
    st\<lparr>seen := seen st @ [k],
       chunk_files := (if k = entry then chunk_files st else set_add (compiledFile c) (chunk_files st)),
       stylesheets := fold set_add (cssAssets c) (stylesheets st),
       fonts := fold set_add (fontAssets c) (fonts st)\<rparr>"

lemma resolve_symlinks_entry:
  "resolve_symlinks canon g p = Inr (k, c) \<Longrightarrow> (k, c) \<in> set g \<and> canon k = canon p"
proof -
  assume "resolve_symlinks canon g p = Inr (k, c)"
  then have f: "find (\<lambda>(k, c). canon k = canon p) g = Some (k, c)"
    by (simp add: resolve_symlinks_def split: option.splits)
  then have "(k, c) \<in> set g"
    by (metis find_Some_iff nth_mem)
  moreover have "canon k = canon p"
    using f by (auto simp: find_Some_iff)
  ultimately show ?thesis by simp
qed

lemma resolve_symlinks_key:
  "resolve_symlinks canon g p = Inr (k, c) \<Longrightarrow> k \<in> fst ` set g"
  using resolve_symlinks_entry [of canon g p k c] by force

lemma seen_visit: "seen (visit entry k c st) = seen st @ [k]"
  by (simp add: visit_def)

lemma card_unseen_less:
  "k \<in> fst ` set g \<Longrightarrow> k \<notin> set vs \<Longrightarrow>
     card (fst ` set g - set (vs @ [k])) < card (fst ` set g - set vs)"
  by (rule psubset_card_mono) auto

text \<open>
  Modelled from the spec: the depth-first traversal over the static import edges, part
  of \<open>find_deps\<close> in \<open>./utils.js\<close>, which is not among the sources.  The second list is
  the stack of paths still to be looked at.  A path whose identity has been visited
  is dropped; otherwise its node is visited and its imports come next, before the
  rest.  A path with no entry in the graph stops the traversal with the error.
\<close>

function traverse ::
  "(path \<Rightarrow> path) \<Rightarrow> artifact_graph \<Rightarrow> path \<Rightarrow> path list \<Rightarrow> resolver \<Rightarrow> error + resolver" where
  "traverse canon g entry [] st = Inr st"
| "traverse canon g entry (current # rest) st =
    (case resolve_symlinks canon g current of
       Inl e \<Rightarrow> Inl e
     | Inr (k, c) \<Rightarrow>
         if k \<in> set (seen st) then traverse canon g entry rest st
         else traverse canon g entry (importedModules c @ rest) (visit entry k c st))"
  by pat_completeness auto
termination
proof (relation "measures
    [\<lambda>(canon, g, entry, stack, st). card (fst ` set g - set (seen st)),
     \<lambda>(canon, g, entry, stack, st). length stack]", goal_cases)
  case 1
  show ?case by simp
next
  case (2 canon g entry current rest st kc k c)
  then show ?case by simp
next
  case (3 canon g entry current rest st kc k c)
  then have "k \<in> fst ` set g"
    using resolve_symlinks_key [of canon g current k c] by simp
  with 3 have "card (fst ` set g - set (seen (visit entry k c st)))
      < card (fst ` set g - set (seen st))"
    unfolding seen_visit by (intro card_unseen_less) simp_all
  then show ?case by simp
qed

text \<open>The result of a resolution, as \<open>build_server\<close> reads it.\<close>

record resolved_entry =
  entry_file :: path
  entry_imports :: "path list"
  entry_stylesheets :: "path list"
  entry_fonts :: "path list"

text \<open>
  Modelled from the spec: \<open>find_deps\<close> is imported from \<open>./utils.js\<close>, which is not among
  the sources.  The entry is reconciled, the traversal starts at it with nothing
  visited, and the result sets are returned with the entry's compiled file.
\<close>

definition find_deps ::
  "(path \<Rightarrow> path) \<Rightarrow> artifact_graph \<Rightarrow> path \<Rightarrow> error + resolved_entry" where
  "find_deps canon g p =
    (case resolve_symlinks canon g p of
       Inl e \<Rightarrow> Inl e
     | Inr (k, c) \<Rightarrow>
         (case traverse canon g k [k] resolver_init of
            Inl e \<Rightarrow> Inl e
          | Inr st \<Rightarrow>
              Inr \<lparr>entry_file = compiledFile c, entry_imports = chunk_files st,
                   entry_stylesheets = stylesheets st, entry_fonts = fonts st\<rparr>))"

text \<open>
  Modelled from the spec: the order in which the resolution of an entry visits the
  nodes of the graph (the visited set of the traversal, which \<open>find_deps\<close> does not
  return).
\<close>

definition visited_of ::
  "(path \<Rightarrow> path) \<Rightarrow> artifact_graph \<Rightarrow> path \<Rightarrow> error + path list" where
  "visited_of canon g p =
    (case resolve_symlinks canon g p of
       Inl e \<Rightarrow> Inl e
     | Inr (k, c) \<Rightarrow>
         (case traverse canon g k [k] resolver_init of
            Inl e \<Rightarrow> Inl e
          | Inr st \<Rightarrow> Inr (seen st)))"

text \<open>An example graph: a diamond from A over B and C to D, with an edge back from D to A.\<close>

definition diamond :: artifact_graph where
  "diamond =
    [(''A.js'', \<lparr>compiledFile = ''a.out.js'', importedModules = [''B.js'', ''C.js''],
                 cssAssets = [''a.css''], fontAssets = [], isDynamicEntry = False\<rparr>),
     (''B.js'', \<lparr>compiledFile = ''b.out.js'', importedModules = [''D.js''],
                 cssAssets = [], fontAssets = [], isDynamicEntry = False\<rparr>),
     (''C.js'', \<lparr>compiledFile = ''c.out.js'', importedModules = [''D.js''],
                 cssAssets = [], fontAssets = [], isDynamicEntry = False\<rparr>),
     (''D.js'', \<lparr>compiledFile = ''d.out.js'', importedModules = [''A.js''],
                 cssAssets = [''d.css''], fontAssets = [''d.woff2''], isDynamicEntry = False\<rparr>)]"

section \<open>The stylesheet inliner: lines 177--189 of \<open>build_server.js\<close>\<close>

text \<open>\<open>s.endsWith(e)\<close>\<close>

definition endsWith :: "string \<Rightarrow> string \<Rightarrow> bool" where
  "endsWith s e = suffix e s"

text \<open>
  The state of the inliner: the map \<open>stylesheet_lookup\<close> from asset path to slot, as
  the list of its entries in insertion order (\<open>set\<close> is \<open>AList.update\<close>, \<open>get\<close> is
  \<open>map_of\<close>, \<open>size\<close> is the length), and the stylesheet modules written so far, each
  with its slot: the file \<open>stylesheets/<slot>.js\<close> exports the asset's source.
\<close>

record inliner =
  stylesheet_lookup :: "(string \<times> nat) list"
  stylesheet_files :: "(nat \<times> output_asset) list"

definition inliner_init :: inliner where
  "inliner_init = \<lparr>stylesheet_lookup = [], stylesheet_files = []\<rparr>"

text \<open>
  The body of \<open>client.assets.forEach\<close>, for one asset and the configured
  \<open>inlineStyleThreshold\<close>.
\<close>

definition inline_asset :: "int \<Rightarrow> output_asset \<Rightarrow> inliner \<Rightarrow> inliner" where
  "inline_asset threshold asset st =
    (if endsWith (fileName asset) ''.css'' then
       if int (length (source asset)) < threshold then
         (let index = length (stylesheet_lookup st)
          in st\<lparr>stylesheet_files := stylesheet_files st @ [(index, asset)],
                stylesheet_lookup := AList.update (fileName asset) index (stylesheet_lookup st)\<rparr>)
       else st
     else st)"

definition inline_assets :: "int \<Rightarrow> output_asset list \<Rightarrow> inliner" where
  "inline_assets threshold assets = fold (inline_asset threshold) assets inliner_init"

text \<open>An example asset: a stylesheet of a given name and size.\<close>

definition css_of_size :: "string \<Rightarrow> nat \<Rightarrow> output_asset" where
  "css_of_size name n = \<lparr>fileName = name, source = replicate n CHR ''x''\<rparr>"

section \<open>The node-manifest emitter: lines 191--264 of \<open>build_server.js\<close>\<close>

text \<open>
  The statements of a generated node module.  Each constructor stands for one template
  of the source:
  \<^item> \<open>Export_index i\<close>: \<^verbatim>\<open>export const index = <i>;\<close>
  \<^item> \<open>Export_loader n f\<close>: \<^verbatim>\<open>export const <n> = async () => (await import('../<f>')).default;\<close>
  \<^item> \<open>Export_file f\<close>: \<^verbatim>\<open>export const file = '<f>';\<close>
  \<^item> \<open>Import_namespace n f\<close>: \<^verbatim>\<open>import * as <n> from '../<f>';\<close>
  \<^item> \<open>Export_name n\<close>: \<^verbatim>\<open>export { <n> };\<close>
  \<^item> \<open>Export_imports fs\<close>, \<open>Export_stylesheets fs\<close>, \<open>Export_fonts fs\<close>:
    \<^verbatim>\<open>export const imports = <fs>;\<close> and so on
  \<^item> \<open>Import_stylesheet i\<close>: \<^verbatim>\<open>import stylesheet_<i> from '../stylesheets/<i>.js';\<close>
  \<^item> \<open>Export_inline_styles ps\<close>: \<^verbatim>\<open>export const inline_styles = () => ({ <f>: stylesheet_<i>, ... });\<close>
\<close>

datatype statement =
    Export_index nat
  | Export_loader string path
  | Export_file path
  | Import_namespace string path
  | Export_name string
  | Export_imports "path list"
  | Export_stylesheets "path list"
  | Export_fonts "path list"
  | Import_stylesheet nat
  | Export_inline_styles "(path \<times> nat) list"

text \<open>The five arrays that the emitter fills for one node.\<close>

record node_acc =
  n_imports :: "statement list"
  n_exports :: "statement list"
  n_imported :: "path list"
  n_stylesheets :: "path list"
  n_fonts :: "path list"

text \<open>The generated module \<open>nodes/<i>.js\<close>: its import lines, then its export lines.\<close>

record node_module =
  m_imports :: "statement list"
  m_exports :: "statement list"

text \<open>
  \<open>vite_manifest[p].file\<close>: a plain property access, which raises a \<open>TypeError\<close> when the
  manifest has no entry for \<open>p\<close>.
\<close>

definition manifest_file :: "artifact_graph \<Rightarrow> path \<Rightarrow> error + path" where
  "manifest_file m p =
    (case map_of m p of
       None \<Rightarrow> Inl (TypeError ''file'')
     | Some c \<Rightarrow> Inr (compiledFile c))"

text \<open>\<open>if (node.component) { ... }\<close>\<close>

definition emit_component ::
  "(path \<Rightarrow> path) \<Rightarrow> artifact_graph \<Rightarrow> artifact_graph \<Rightarrow> page_node \<Rightarrow> node_acc
    \<Rightarrow> error + node_acc" where
  "emit_component canon client vite node acc =
    (if truthy (component node) then
       (case find_deps canon client (the (component node)) of
          Inl e \<Rightarrow> Inl e
        | Inr entry \<Rightarrow>
            (case resolve_symlinks canon vite (the (component node)) of
               Inl e \<Rightarrow> Inl e
             | Inr (k, c) \<Rightarrow>
                 Inr (acc\<lparr>n_imported := n_imported acc @ entry_imports entry,
                          n_stylesheets := n_stylesheets acc @ entry_stylesheets entry,
                          n_fonts := n_fonts acc @ entry_fonts entry,
                          n_exports := n_exports acc @
                            [Export_loader ''component'' (compiledFile c),
                             Export_file (entry_file entry)]\<rparr>)))
     else Inr acc)"

text \<open>\<open>if (node.universal) { ... }\<close>\<close>

definition emit_universal ::
  "(path \<Rightarrow> path) \<Rightarrow> artifact_graph \<Rightarrow> artifact_graph \<Rightarrow> page_node \<Rightarrow> node_acc
    \<Rightarrow> error + node_acc" where
  "emit_universal canon client vite node acc =
    (if truthy (universal node) then
       (case find_deps canon client (the (universal node)) of
          Inl e \<Rightarrow> Inl e
        | Inr entry \<Rightarrow>
            (case manifest_file vite (the (universal node)) of
               Inl e \<Rightarrow> Inl e
             | Inr f \<Rightarrow>
                 Inr (acc\<lparr>n_imported := n_imported acc @ entry_imports entry,
                          n_stylesheets := n_stylesheets acc @ entry_stylesheets entry,
                          n_fonts := n_fonts acc @ entry_fonts entry,
                          n_imports := n_imports acc @ [Import_namespace ''universal'' f],
                          n_exports := n_exports acc @ [Export_name ''universal'']\<rparr>)))
     else Inr acc)"

text \<open>\<open>if (node.server) { ... }\<close>\<close>

definition emit_server :: "artifact_graph \<Rightarrow> page_node \<Rightarrow> node_acc \<Rightarrow> error + node_acc" where
  "emit_server vite node acc =
    (if truthy (server node) then
       (case manifest_file vite (the (server node)) of
          Inl e \<Rightarrow> Inl e
        | Inr f \<Rightarrow>
            Inr (acc\<lparr>n_imports := n_imports acc @ [Import_namespace ''server'' f],
                     n_exports := n_exports acc @ [Export_name ''server'']\<rparr>))
     else Inr acc)"

text \<open>
  \<open>stylesheets.forEach\<close>: for each stylesheet of the node that has a slot, the import
  of its stylesheet module and its entry of \<open>inline_styles\<close>.
\<close>

definition inline_style ::
  "(string \<times> nat) list \<Rightarrow> path \<Rightarrow> statement list \<times> (path \<times> nat) list
    \<Rightarrow> statement list \<times> (path \<times> nat) list" where
  "inline_style lookup f acc =
    (case map_of lookup f of
       None \<Rightarrow> acc
     | Some index \<Rightarrow> (fst acc @ [Import_stylesheet index], snd acc @ [(f, index)]))"

definition inline_styles ::
  "(string \<times> nat) list \<Rightarrow> path list \<Rightarrow> statement list \<Rightarrow> statement list \<times> (path \<times> nat) list" where
  "inline_styles lookup fs imports = fold (inline_style lookup) fs (imports, [])"

text \<open>The body of \<open>manifest_data.nodes.forEach\<close> for the node at index \<open>i\<close>.\<close>

definition emit_node ::
  "(path \<Rightarrow> path) \<Rightarrow> artifact_graph \<Rightarrow> artifact_graph \<Rightarrow> (string \<times> nat) list \<Rightarrow> nat
    \<Rightarrow> page_node \<Rightarrow> error + node_module" where
  "emit_node canon client vite lookup i node =
    (case emit_component canon client vite node
            \<lparr>n_imports = [], n_exports = [Export_index i], n_imported = [],
             n_stylesheets = [], n_fonts = []\<rparr> of
       Inl e \<Rightarrow> Inl e
     | Inr acc1 \<Rightarrow>
    (case emit_universal canon client vite node acc1 of
       Inl e \<Rightarrow> Inl e
     | Inr acc2 \<Rightarrow>
    (case emit_server vite node acc2 of
       Inl e \<Rightarrow> Inl e
     | Inr acc3 \<Rightarrow>
         (let exports = n_exports acc3 @
                [Export_imports (n_imported acc3), Export_stylesheets (n_stylesheets acc3),
                 Export_fonts (n_fonts acc3)];
              (imports, styles) = inline_styles lookup (n_stylesheets acc3) (n_imports acc3)
          in Inr \<lparr>m_imports = imports,
                  m_exports = (if length styles > 0
                               then exports @ [Export_inline_styles styles]
                               else exports)\<rparr>))))"


text \<open>The roles that a module exposes behind a loader, and those it re-exports directly.\<close>

fun lazy_role :: "statement \<Rightarrow> string list" where
  "lazy_role (Export_loader n f) = [n]"
| "lazy_role _ = []"

fun direct_role :: "statement \<Rightarrow> string list" where
  "direct_role (Export_name n) = [n]"
| "direct_role _ = []"

definition lazy_roles :: "node_module \<Rightarrow> string list" where
  "lazy_roles m = concat (map lazy_role (m_exports m))"

definition direct_roles :: "node_module \<Rightarrow> string list" where
  "direct_roles m = concat (map direct_role (m_exports m))"

text \<open>Example manifests: a page with a component, client logic and server logic.\<close>

definition leaf_chunk :: "path \<Rightarrow> path list \<Rightarrow> chunk" where
  "leaf_chunk f css =
    \<lparr>compiledFile = f, importedModules = [], cssAssets = css, fontAssets = [],
     isDynamicEntry = False\<rparr>"

definition page_client :: artifact_graph where
  "page_client =
    [(''src/routes/+page.svelte'', leaf_chunk ''_app/immutable/nodes/2.js'' [''_app/immutable/assets/2.css'']),
     (''src/routes/+page.js'', leaf_chunk ''_app/immutable/nodes/2u.js'' [])]"

definition page_server :: artifact_graph where
  "page_server =
    [(''src/routes/+page.svelte'', leaf_chunk ''entries/pages/_page.svelte.js'' []),
     (''src/routes/+page.js'', leaf_chunk ''entries/pages/_page.js'' []),
     (''src/routes/+page.server.js'', leaf_chunk ''entries/pages/_page.server.js'' [])]"

section \<open>The route-method extractor: \<open>get_methods\<close> of \<open>build_server.js\<close>\<close>

text \<open>
  Modelled from the spec: the fixed set of HTTP method names of the method table
  (the constant is part of \<open>./utils.js\<close>, which is not among the sources).
\<close>

definition http_methods :: "string list" where
  "http_methods = [''GET'', ''POST'', ''PUT'', ''PATCH'', ''DELETE'', ''OPTIONS'', ''HEAD'']"

text \<open>
  Modelled from the spec: \<open>is_http_method\<close> is imported from \<open>./utils.js\<close>, which is not
  among the sources; it is the membership test of the fixed set of method names.
\<close>

definition is_http_method :: "string \<Rightarrow> bool" where
  "is_http_method m = (m \<in> set http_methods)"

text \<open>
  The first loop of \<open>get_methods\<close>: the table \<open>lookup\<close> from the identity of a chunk's
  facade module to its export list.  \<open>rel cwd id\<close> stands for
  \<open>posixify(path.relative(cwd, id))\<close>.  A chunk with a falsy \<open>facadeModuleId\<close> is skipped;
  a later chunk with the same identity overrides an earlier one.
\<close>

definition lookup_step ::
  "(path \<Rightarrow> path \<Rightarrow> path) \<Rightarrow> path \<Rightarrow> output_chunk \<Rightarrow> (path \<rightharpoonup> string list)
    \<Rightarrow> (path \<rightharpoonup> string list)" where
  "lookup_step rel cwd chunk lookup =
    (if \<not> truthy (facadeModuleId chunk) then lookup
     else lookup(rel cwd (the (facadeModuleId chunk)) \<mapsto> exports chunk))"

definition lookup_of ::
  "(path \<Rightarrow> path \<Rightarrow> path) \<Rightarrow> path \<Rightarrow> output_chunk list \<Rightarrow> (path \<rightharpoonup> string list)" where
  "lookup_of rel cwd output = fold (lookup_step rel cwd) output Map.empty"

text \<open>
  The body of the second loop, for one route: \<open>if (lookup[f]) methods[f] =
  lookup[f].filter(is_http_method)\<close>, for the endpoint's file and then for the leaf's
  server file.  An export list is an array, hence truthy whenever it is there.
\<close>

definition set_methods ::
  "(path \<rightharpoonup> string list) \<Rightarrow> path \<Rightarrow> (path \<rightharpoonup> string list) \<Rightarrow> (path \<rightharpoonup> string list)" where
  "set_methods lookup f methods =
    (case lookup f of
       None \<Rightarrow> methods
     | Some ex \<Rightarrow> methods(f \<mapsto> filter is_http_method ex))"

definition route_methods ::
  "(path \<rightharpoonup> string list) \<Rightarrow> route \<Rightarrow> (path \<rightharpoonup> string list) \<Rightarrow> (path \<rightharpoonup> string list)" where
  "route_methods lookup r methods =
    (let methods1 =
           (case endpoint r of
              None \<Rightarrow> methods
            | Some ep \<Rightarrow> set_methods lookup (ep_file ep) methods)
     in case leaf r of
          None \<Rightarrow> methods1
        | Some lf \<Rightarrow>
            if truthy (server lf) then set_methods lookup (the (server lf)) methods1
            else methods1)"

definition get_methods ::
  "(path \<Rightarrow> path \<Rightarrow> path) \<Rightarrow> path \<Rightarrow> output_chunk list \<Rightarrow> route list
    \<Rightarrow> (path \<rightharpoonup> string list)" where
  "get_methods rel cwd output routes =
    fold (route_methods (lookup_of rel cwd output)) routes Map.empty"

text \<open>The files of a route that \<open>get_methods\<close> looks up.\<close>

definition route_files :: "route \<Rightarrow> path list" where
  "route_files r =
    (case endpoint r of None \<Rightarrow> [] | Some ep \<Rightarrow> [ep_file ep]) @
    (case leaf r of
       None \<Rightarrow> []
     | Some lf \<Rightarrow> if truthy (server lf) then [the (server lf)] else [])"

section \<open>The server entry generator and \<open>build_server\<close>\<close>

text \<open>
  The expression that \<open>get_hooks\<close> of the generated module returns:
  \<^verbatim>\<open>${hooks ? `import(${s(hooks)})` : '{}'}\<close> of \<open>server_template\<close>.  \<open>s\<close> is the string
  quoting of \<open>utils/misc.js\<close>.
\<close>

definition server_template_get_hooks :: "(string \<Rightarrow> string) \<Rightarrow> string option \<Rightarrow> string" where
  "server_template_get_hooks s hooks =
    (if truthy hooks then ''import('' @ s (the hooks) @ '')'' else ''{}'')"

text \<open>
  The \<open>hooks\<close> option that \<open>build_server\<close> passes to the template:
  \<^verbatim>\<open>fs.existsSync(hooks_file) ? relative(hooks_file) : null\<close>.  \<open>hooks_file\<close> is the result
  of \<open>resolve_entry\<close>, which may be \<open>null\<close> (for which \<open>existsSync\<close> is false), and
  \<open>relative f\<close> stands for \<open>path.relative(path.dirname(input.internal), f)\<close>.
\<close>

definition hooks_option :: "(path \<Rightarrow> bool) \<Rightarrow> (path \<Rightarrow> path) \<Rightarrow> path option \<Rightarrow> string option" where
  "hooks_option existsSync relative hooks_file =
    (case hooks_file of
       None \<Rightarrow> None
     | Some f \<Rightarrow> if existsSync f then Some (relative f) else None)"


record build_options =
  cwd :: path
  hooks_file :: "path option"
  inlineStyleThreshold :: int
  routes :: "route list"
  nodes :: "page_node list"

record client_build =
  client_manifest :: artifact_graph
  assets :: "output_asset list"








section \<open>The runtime server: \<open>runtime/server/index.js\<close>\<close>

text \<open>
  \<open>Object.fromEntries\<close>: a later entry with the same key overrides an earlier one.
\<close>

definition fromEntries :: "(string \<times> 'v) list \<Rightarrow> (string \<rightharpoonup> 'v)" where
  "fromEntries es = fold (\<lambda>(k, v) m. m(k \<mapsto> v)) es Map.empty"

text \<open>
  The module loaded by \<open>get_hooks()\<close>: each of the three hooks is present (a function
  value of type \<open>'f\<close>) or falsy.
\<close>

record 'f hooks_module =
  handle :: "'f option"
  handleError :: "'f option"
  handleFetch :: "'f option"

text \<open>A hook of the server: the module's function, or the built-in default of that slot.\<close>

datatype 'f hook = Module_fn 'f | Default_fn

record 'f server_hooks =
  hk_handle :: "'f hook"
  hk_handleError :: "'f hook"
  hk_handleFetch :: "'f hook"

text \<open>\<open>module.x || default\<close>\<close>

fun or_default :: "'f option \<Rightarrow> 'f hook" where
  "or_default None = Default_fn"
| "or_default (Some f) = Module_fn f"

text \<open>
  The state \<open>Server.init\<close> writes: \<open>this.options.hooks\<close> (the constructor copies the
  generated options, which have no hooks, so it is absent until \<open>init\<close> sets it), and
  the two environment objects held by \<open>env-private.js\<close> and \<open>env-public.js\<close>.
\<close>

record 'f server =
  hooks :: "'f server_hooks option"
  private_env :: "string \<rightharpoonup> string"
  public_env :: "string \<rightharpoonup> string"

text \<open>
  \<open>Server.init({ env })\<close>.  \<open>public_prefix\<close> and the outcome of awaiting \<open>get_hooks()\<close>
  come from the generated module, \<open>entries\<close> is \<open>Object.entries(env)\<close>.  The result is
  the state after the call and the error thrown, if any: the environment is set
  before the hooks module is awaited, so it is set even if the import is rejected.
\<close>

definition init ::
  "string \<Rightarrow> (error + 'f hooks_module) \<Rightarrow> (string \<times> string) list \<Rightarrow> 'f server
    \<Rightarrow> error option \<times> 'f server" where
  "init public_prefix get_hooks entries srv =
    (let prv = fromEntries (filter (\<lambda>(k, v). \<not> startsWith k public_prefix) entries);
         pub = fromEntries (filter (\<lambda>(k, v). startsWith k public_prefix) entries);
         srv1 = srv\<lparr>private_env := prv, public_env := pub\<rparr>
     in if hooks srv1 = None then
          (case get_hooks of
             Inl e \<Rightarrow> (Some e, srv1)
           | Inr module \<Rightarrow>
               (None, srv1\<lparr>hooks := Some \<lparr>hk_handle = or_default (handle module),
                                         hk_handleError = or_default (handleError module),
                                         hk_handleFetch = or_default (handleFetch module)\<rparr>\<rparr>))
        else (None, srv1))"

section \<open>Properties of the artifact-graph resolver\<close>

lemma set_fold_set_add: "set (fold set_add xs ys) = set xs \<union> set ys"
  by (induction xs arbitrary: ys) (auto simp: set_add_def)

lemma distinct_fold_set_add: "distinct ys \<Longrightarrow> distinct (fold set_add xs ys)"
  by (induction xs arbitrary: ys) (auto simp: set_add_def)

lemma count_list_distinct:
  "distinct xs \<Longrightarrow> x \<in> set xs \<Longrightarrow> count_list xs x = 1"
  by (induction xs) auto

lemma resolve_symlinks_canon:
  "canon p = canon q \<Longrightarrow> resolve_symlinks canon g p = Inr kc \<Longrightarrow>
     resolve_symlinks canon g q = Inr kc"
  by (simp add: resolve_symlinks_def split: option.splits)

lemma resolve_symlinks_same_key:
  assumes "resolve_symlinks canon g p = Inr (k, c)"
    and "resolve_symlinks canon g q = Inr (k, c')"
  shows "c' = c"
proof -
  have "canon p = canon q"
    using assms resolve_symlinks_entry [of canon g p k c] resolve_symlinks_entry [of canon g q k c']
    by simp
  then have "resolve_symlinks canon g q = Inr (k, c)"
    using assms(1) by (rule resolve_symlinks_canon)
  with assms(2) show ?thesis by simp
qed

lemma visit_sets:
  "set (stylesheets (visit entry k c st)) = set (cssAssets c) \<union> set (stylesheets st)"
  "set (fonts (visit entry k c st)) = set (fontAssets c) \<union> set (fonts st)"
  by (simp_all add: visit_def set_fold_set_add)

lemma visit_distinct:
  "distinct (stylesheets st) \<Longrightarrow> distinct (stylesheets (visit entry k c st))"
  "distinct (fonts st) \<Longrightarrow> distinct (fonts (visit entry k c st))"
  by (simp_all add: visit_def distinct_fold_set_add)

lemma traverse_mono:
  "traverse canon g entry stack st = Inr st' \<Longrightarrow>
     set (seen st) \<subseteq> set (seen st') \<and>
     set (stylesheets st) \<subseteq> set (stylesheets st') \<and>
     set (fonts st) \<subseteq> set (fonts st')"
proof (induction canon g entry stack st rule: traverse.induct)
  case (1 canon g entry st)
  then show ?case by simp
next
  case (2 canon g entry current rest st)
  from "2.prems" obtain k c where r: "resolve_symlinks canon g current = Inr (k, c)"
    by (cases "resolve_symlinks canon g current") auto
  show ?case
  proof (cases "k \<in> set (seen st)")
    case True
    with "2.prems" r have "traverse canon g entry rest st = Inr st'" by simp
    with "2.IH"(1) [OF r refl True] show ?thesis by simp
  next
    case False
    with "2.prems" r have
      "traverse canon g entry (importedModules c @ rest) (visit entry k c st) = Inr st'"
      by simp
    with "2.IH"(2) [OF r refl False] show ?thesis
      by (auto simp: seen_visit visit_sets)
  qed
qed

lemma traverse_distinct:
  "traverse canon g entry stack st = Inr st' \<Longrightarrow>
     distinct (seen st) \<and> distinct (stylesheets st) \<and> distinct (fonts st) \<Longrightarrow>
     distinct (seen st') \<and> distinct (stylesheets st') \<and> distinct (fonts st')"
proof (induction canon g entry stack st rule: traverse.induct)
  case (1 canon g entry st)
  then show ?case by simp
next
  case (2 canon g entry current rest st)
  from "2.prems"(1) obtain k c where r: "resolve_symlinks canon g current = Inr (k, c)"
    by (cases "resolve_symlinks canon g current") auto
  show ?case
  proof (cases "k \<in> set (seen st)")
    case True
    with "2.prems" r have "traverse canon g entry rest st = Inr st'" by simp
    with "2.IH"(1) [OF r refl True] "2.prems"(2) show ?thesis by simp
  next
    case False
    with "2.prems" r have
      "traverse canon g entry (importedModules c @ rest) (visit entry k c st) = Inr st'"
      by simp
    moreover have "distinct (seen (visit entry k c st)) \<and>
        distinct (stylesheets (visit entry k c st)) \<and> distinct (fonts (visit entry k c st))"
      using False "2.prems"(2) by (simp add: seen_visit visit_distinct)
    ultimately show ?thesis
      using "2.IH"(2) [OF r refl False] by simp
  qed
qed

lemma traverse_stack_visited:
  "traverse canon g entry stack st = Inr st' \<Longrightarrow> p \<in> set stack \<Longrightarrow>
     \<exists>k c. resolve_symlinks canon g p = Inr (k, c) \<and> k \<in> set (seen st')"
proof (induction canon g entry stack st rule: traverse.induct)
  case (1 canon g entry st)
  then show ?case by simp
next
  case (2 canon g entry current rest st)
  from "2.prems"(1) obtain k c where r: "resolve_symlinks canon g current = Inr (k, c)"
    by (cases "resolve_symlinks canon g current") auto
  show ?case
  proof (cases "k \<in> set (seen st)")
    case True
    with "2.prems" r have t: "traverse canon g entry rest st = Inr st'" by simp
    show ?thesis
    proof (cases "p = current")
      case True
      with r \<open>k \<in> set (seen st)\<close> traverse_mono [OF t] show ?thesis by auto
    next
      case False
      with "2.prems"(2) have "p \<in> set rest" by simp
      with "2.IH"(1) [OF r refl True t] show ?thesis .
    qed
  next
    case False
    with "2.prems" r have
      t: "traverse canon g entry (importedModules c @ rest) (visit entry k c st) = Inr st'"
      by simp
    show ?thesis
    proof (cases "p = current")
      case True
      have "k \<in> set (seen (visit entry k c st))" by (simp add: seen_visit)
      with traverse_mono [OF t] have "k \<in> set (seen st')" by auto
      with r True show ?thesis by auto
    next
      case False
      with "2.prems"(2) have "p \<in> set (importedModules c @ rest)" by simp
      with "2.IH"(2) [OF r refl \<open>k \<notin> set (seen st)\<close> t] show ?thesis .
    qed
  qed
qed

lemma traverse_new_node:
  "traverse canon g entry stack st = Inr st' \<Longrightarrow>
   n \<in> set (seen st') \<Longrightarrow> n \<notin> set (seen st) \<Longrightarrow>
   resolve_symlinks canon g p = Inr (n, d) \<Longrightarrow>
     (\<forall>m \<in> set (importedModules d).
        \<exists>k c. resolve_symlinks canon g m = Inr (k, c) \<and> k \<in> set (seen st')) \<and>
     set (cssAssets d) \<subseteq> set (stylesheets st') \<and>
     set (fontAssets d) \<subseteq> set (fonts st')"
proof (induction canon g entry stack st rule: traverse.induct)
  case (1 canon g entry st)
  then show ?case by simp
next
  case (2 canon g entry current rest st)
  from "2.prems"(1) obtain k c where r: "resolve_symlinks canon g current = Inr (k, c)"
    by (cases "resolve_symlinks canon g current") auto
  show ?case
  proof (cases "k \<in> set (seen st)")
    case True
    with "2.prems" r have t: "traverse canon g entry rest st = Inr st'" by simp
    show ?thesis
      by (rule "2.IH"(1) [OF r refl True t "2.prems"(2,3,4)])
  next
    case False
    with "2.prems" r have
      t: "traverse canon g entry (importedModules c @ rest) (visit entry k c st) = Inr st'"
      by simp
    show ?thesis
    proof (cases "n = k")
      case True
      with r "2.prems"(4) have d: "d = c"
        using resolve_symlinks_same_key [of canon g current k c p d] by simp
      have "\<forall>m \<in> set (importedModules d).
          \<exists>k c. resolve_symlinks canon g m = Inr (k, c) \<and> k \<in> set (seen st')"
        using traverse_stack_visited [OF t] d by simp
      moreover have "set (cssAssets d) \<subseteq> set (stylesheets st')"
        using traverse_mono [OF t] d by (auto simp: visit_sets)
      moreover have "set (fontAssets d) \<subseteq> set (fonts st')"
        using traverse_mono [OF t] d by (auto simp: visit_sets)
      ultimately show ?thesis by simp
    next
      case neq: False
      with "2.prems"(3) have "n \<notin> set (seen (visit entry k c st))"
        by (simp add: seen_visit)
      then show ?thesis
        by (rule "2.IH"(2) [OF r refl False t "2.prems"(2) _ "2.prems"(4)])
    qed
  qed
qed

lemma traverse_succeeds:
  "\<forall>(k, c) \<in> set g. \<forall>m \<in> set (importedModules c). \<exists>kc. resolve_symlinks canon g m = Inr kc \<Longrightarrow>
   \<forall>p \<in> set stack. \<exists>kc. resolve_symlinks canon g p = Inr kc \<Longrightarrow>
     \<exists>st'. traverse canon g entry stack st = Inr st'"
proof (induction canon g entry stack st rule: traverse.induct)
  case (1 canon g entry st)
  show ?case by simp
next
  case (2 canon g entry current rest st)
  from "2.prems"(2) obtain k c where r: "resolve_symlinks canon g current = Inr (k, c)"
    by fastforce
  show ?case
  proof (cases "k \<in> set (seen st)")
    case True
    have "\<exists>st'. traverse canon g entry rest st = Inr st'"
      using "2.IH"(1) [OF r refl True "2.prems"(1)] "2.prems"(2) by simp
    with r True show ?thesis by simp
  next
    case False
    have "(k, c) \<in> set g"
      using resolve_symlinks_entry [OF r] by simp
    with "2.prems"(1) have
      "\<forall>m \<in> set (importedModules c). \<exists>kc. resolve_symlinks canon g m = Inr kc"
      by fastforce
    with "2.prems"(2) have
      "\<forall>p \<in> set (importedModules c @ rest). \<exists>kc. resolve_symlinks canon g p = Inr kc"
      by auto
    then have "\<exists>st'. traverse canon g entry (importedModules c @ rest) (visit entry k c st) = Inr st'"
      by (rule "2.IH"(2) [OF r refl False "2.prems"(1)])
    with r False show ?thesis by simp
  qed
qed

lemma find_deps_succeeds:
  assumes "\<forall>(k, c) \<in> set g. \<forall>m \<in> set (importedModules c). \<exists>kc. resolve_symlinks canon g m = Inr kc"
    and "resolve_symlinks canon g p = Inr (k, c)"
  shows "\<exists>r. find_deps canon g p = Inr r"
proof -
  have "canon k = canon p"
    using resolve_symlinks_entry [OF assms(2)] by simp
  then have "resolve_symlinks canon g k = Inr (k, c)"
    using assms(2) resolve_symlinks_canon [of canon p k g "(k, c)"] by simp
  then have "\<forall>q \<in> set [k]. \<exists>kc. resolve_symlinks canon g q = Inr kc" by simp
  with assms(1) obtain st' where "traverse canon g k [k] resolver_init = Inr st'"
    using traverse_succeeds [of g canon "[k]" k resolver_init] by blast
  with assms(2) show ?thesis by (simp add: find_deps_def)
qed

text \<open>
  Claim C1.  In a graph where A imports B and C and both import D, a resolution of A
  that returns has each stylesheet asset and each font asset of D exactly once in its
  result, and has visited D exactly once.
\<close>

theorem find_deps_diamond:
  assumes "find_deps canon g A = Inr r"
    and "resolve_symlinks canon g A = Inr (ka, a)"
    and "B \<in> set (importedModules a)" and "C \<in> set (importedModules a)"
    and "resolve_symlinks canon g B = Inr (kb, b)"
    and "resolve_symlinks canon g C = Inr (kc, c)"
    and "D \<in> set (importedModules b)" and "D \<in> set (importedModules c)"
    and "resolve_symlinks canon g D = Inr (kd, d)"
  shows "(\<forall>s \<in> set (cssAssets d). count_list (entry_stylesheets r) s = 1) \<and>
         (\<forall>f \<in> set (fontAssets d). count_list (entry_fonts r) f = 1) \<and>
         (\<exists>vs. visited_of canon g A = Inr vs \<and> count_list vs kd = 1)"
proof -
  from assms(1,2) obtain st where
    t: "traverse canon g ka [ka] resolver_init = Inr st"
    and r: "r = \<lparr>entry_file = compiledFile a, entry_imports = chunk_files st,
                 entry_stylesheets = stylesheets st, entry_fonts = fonts st\<rparr>"
    by (auto simp: find_deps_def split: sum.splits)
  have vs: "visited_of canon g A = Inr (seen st)"
    using assms(2) t by (simp add: visited_of_def)
  have dist: "distinct (seen st) \<and> distinct (stylesheets st) \<and> distinct (fonts st)"
    using traverse_distinct [OF t] by (simp add: resolver_init_def)
  have new: "n \<notin> set (seen resolver_init)" for n
    by (simp add: resolver_init_def)
  have "canon ka = canon A"
    using resolve_symlinks_entry [OF assms(2)] by simp
  then have "resolve_symlinks canon g ka = Inr (ka, a)"
    using assms(2) resolve_symlinks_canon [of canon A ka g "(ka, a)"] by simp
  then have ka: "ka \<in> set (seen st)"
    using traverse_stack_visited [OF t, of ka] by simp
  have "\<exists>k c. resolve_symlinks canon g B = Inr (k, c) \<and> k \<in> set (seen st)"
    using traverse_new_node [OF t ka new assms(2)] assms(3) by blast
  with assms(5) have kb: "kb \<in> set (seen st)" by simp
  have "\<exists>k c. resolve_symlinks canon g D = Inr (k, c) \<and> k \<in> set (seen st)"
    using traverse_new_node [OF t kb new assms(5)] assms(7) by blast
  with assms(9) have kd: "kd \<in> set (seen st)" by simp
  have css: "set (cssAssets d) \<subseteq> set (stylesheets st)"
    and fnt: "set (fontAssets d) \<subseteq> set (fonts st)"
    using traverse_new_node [OF t kd new assms(9)] by simp_all
  have 1: "\<forall>s \<in> set (cssAssets d). count_list (entry_stylesheets r) s = 1"
    using css dist by (auto simp: r count_list_distinct)
  have 2: "\<forall>f \<in> set (fontAssets d). count_list (entry_fonts r) f = 1"
    using fnt dist by (auto simp: r count_list_distinct)
  have 3: "\<exists>vs. visited_of canon g A = Inr vs \<and> count_list vs kd = 1"
    using vs kd dist by (simp add: count_list_distinct)
  from 1 2 3 show ?thesis by simp
qed

lemma find_deps_diamond_value:
  "find_deps (\<lambda>p. p) diamond ''A.js'' =
     Inr \<lparr>entry_file = ''a.out.js'', entry_imports = [''b.out.js'', ''d.out.js'', ''c.out.js''],
          entry_stylesheets = [''a.css'', ''d.css''], entry_fonts = [''d.woff2'']\<rparr>"
  by (simp add: find_deps_def diamond_def resolve_symlinks_def resolver_init_def visit_def
      set_add_def)


theorem find_deps_diamond_witness:
  "find_deps (\<lambda>p. p) diamond ''A.js'' =
     Inr \<lparr>entry_file = ''a.out.js'', entry_imports = [''b.out.js'', ''d.out.js'', ''c.out.js''],
          entry_stylesheets = [''a.css'', ''d.css''], entry_fonts = [''d.woff2'']\<rparr> \<and>
   count_list [''a.css'', ''d.css''] ''d.css'' = 1 \<and>
   count_list [''d.woff2''] ''d.woff2'' = 1 \<and>
   (\<exists>vs. visited_of (\<lambda>p. p) diamond ''A.js'' = Inr vs \<and> count_list vs ''D.js'' = 1)"
proof -
  let ?a = "\<lparr>compiledFile = ''a.out.js'', importedModules = [''B.js'', ''C.js''],
                 cssAssets = [''a.css''], fontAssets = [], isDynamicEntry = False\<rparr>"
  let ?b = "\<lparr>compiledFile = ''b.out.js'', importedModules = [''D.js''],
                 cssAssets = [], fontAssets = [], isDynamicEntry = False\<rparr>"
  let ?c = "\<lparr>compiledFile = ''c.out.js'', importedModules = [''D.js''],
                 cssAssets = [], fontAssets = [], isDynamicEntry = False\<rparr>"
  let ?d = "\<lparr>compiledFile = ''d.out.js'', importedModules = [''A.js''],
                 cssAssets = [''d.css''], fontAssets = [''d.woff2''], isDynamicEntry = False\<rparr>"
  have ra: "resolve_symlinks (\<lambda>p. p) diamond ''A.js'' = Inr (''A.js'', ?a)"
    by (simp add: resolve_symlinks_def diamond_def)
  have rb: "resolve_symlinks (\<lambda>p. p) diamond ''B.js'' = Inr (''B.js'', ?b)"
    by (simp add: resolve_symlinks_def diamond_def)
  have rc: "resolve_symlinks (\<lambda>p. p) diamond ''C.js'' = Inr (''C.js'', ?c)"
    by (simp add: resolve_symlinks_def diamond_def)
  have rd: "resolve_symlinks (\<lambda>p. p) diamond ''D.js'' = Inr (''D.js'', ?d)"
    by (simp add: resolve_symlinks_def diamond_def)
  have ab: "''B.js'' \<in> set (importedModules ?a)" and ac: "''C.js'' \<in> set (importedModules ?a)"
    and bd: "''D.js'' \<in> set (importedModules ?b)" and cd: "''D.js'' \<in> set (importedModules ?c)"
    by simp_all
  show ?thesis
    using find_deps_diamond [OF find_deps_diamond_value ra ab ac rb rc bd cd rd]
      find_deps_diamond_value
    by simp
qed

section \<open>Properties of the stylesheet inliner\<close>



lemma inline_asset_other:
  "fileName a \<noteq> f \<Longrightarrow>
     map_of (stylesheet_lookup (inline_asset T a st)) f = map_of (stylesheet_lookup st) f"
  by (simp add: inline_asset_def Let_def update_conv')

lemma fold_inline_asset_other:
  "f \<notin> fileName ` set bs \<Longrightarrow>
     map_of (stylesheet_lookup (fold (inline_asset T) bs st)) f = map_of (stylesheet_lookup st) f"
proof (induction bs arbitrary: st)
  case Nil
  show ?case by simp
next
  case (Cons b bs)
  then have "fileName b \<noteq> f" and "f \<notin> fileName ` set bs" by auto
  then show ?case
    using Cons.IH [of "inline_asset T b st"] by (simp add: inline_asset_other)
qed

text \<open>The entries of the table have distinct keys, so its length is the size of the map.\<close>

lemma fold_inline_asset_distinct:
  "distinct (map fst (stylesheet_lookup st)) \<Longrightarrow>
     distinct (map fst (stylesheet_lookup (fold (inline_asset T) bs st)))"
proof (induction bs arbitrary: st)
  case Nil
  then show ?case by simp
next
  case (Cons b bs)
  have "distinct (map fst (stylesheet_lookup (inline_asset T b st)))"
    using Cons.prems by (simp add: inline_asset_def Let_def distinct_update)
  then show ?case
    using Cons.IH [of "inline_asset T b st"] by simp
qed

lemma inline_assets_distinct:
  "distinct (map fst (stylesheet_lookup (inline_assets T bs)))"
  using fold_inline_asset_distinct [of inliner_init T bs]
  by (simp add: inline_assets_def inliner_init_def)


lemma fst_fold_inline_style:
  "fst (fold (inline_style lk) fs acc) =
     fst acc @ concat (map (\<lambda>f. case map_of lk f of None \<Rightarrow> [] | Some i \<Rightarrow> [Import_stylesheet i]) fs)"
  by (induction fs arbitrary: acc) (auto simp: inline_style_def split: option.split)




text \<open>
  Claim C3 does not hold of the loop as it is written.  An asset path that is
  considered a second time is given a new slot, the size of the table: there is no
  check for a slot assigned before.
\<close>

theorem inline_twice_counterexample:
  "map_of (stylesheet_lookup (inline_asset 3 (css_of_size ''a.css'' 2) inliner_init)) ''a.css''
     = Some 0 \<and>
   map_of (stylesheet_lookup (inline_asset 3 (css_of_size ''a.css'' 2)
      (inline_asset 3 (css_of_size ''a.css'' 2) inliner_init))) ''a.css'' = Some 1"
  by (simp add: inline_asset_def inliner_init_def css_of_size_def endsWith_def suffix_def Let_def)

text \<open>
  Claim C3, as amended.  In a build whose assets have pairwise distinct file names, the slot that
  an asset path has once it was considered is the slot it has at the end of the build,
  which is what every later lookup of that path returns.
\<close>

theorem slot_stability:
  "distinct (map fileName (pre @ a # post)) \<Longrightarrow>
     map_of (stylesheet_lookup (inline_assets T (pre @ a # post))) (fileName a)
       = map_of (stylesheet_lookup (inline_assets T (pre @ [a]))) (fileName a)"
proof -
  assume "distinct (map fileName (pre @ a # post))"
  then have "fileName a \<notin> fileName ` set post" by auto
  then show ?thesis
    using fold_inline_asset_other [of "fileName a" post T "fold (inline_asset T) (pre @ [a]) inliner_init"]
    by (simp add: inline_assets_def)
qed

theorem slot_stability_witness:
  "map_of (stylesheet_lookup (inline_assets 3
      [css_of_size ''z.css'' 1, css_of_size ''a.css'' 2, css_of_size ''b.css'' 0])) ''a.css''
     = Some 1"
proof -
  have d: "distinct (map fileName ([css_of_size ''z.css'' 1] @ css_of_size ''a.css'' 2 # [css_of_size ''b.css'' 0]))"
    by (simp add: css_of_size_def)
  have v: "map_of (stylesheet_lookup (inline_assets 3
      ([css_of_size ''z.css'' 1] @ [css_of_size ''a.css'' 2]))) (fileName (css_of_size ''a.css'' 2)) = Some 1"
    by (simp add: inline_assets_def inline_asset_def inliner_init_def css_of_size_def endsWith_def
        suffix_def Let_def)
  show ?thesis
    using slot_stability [OF d, of 3] v by (simp add: css_of_size_def)
qed

section \<open>Properties of the node-manifest emitter\<close>

lemma emit_component_roles:
  "emit_component canon client vite node acc = Inr acc' \<Longrightarrow>
     concat (map lazy_role (n_exports acc')) =
       concat (map lazy_role (n_exports acc)) @ (if truthy (component node) then [''component''] else []) \<and>
     concat (map direct_role (n_exports acc')) = concat (map direct_role (n_exports acc)) \<and>
     n_imports acc' = n_imports acc \<and>
     set (n_exports acc) \<subseteq> set (n_exports acc') \<and>
     (truthy (component node) \<longrightarrow>
        (\<exists>k c. resolve_symlinks canon vite (the (component node)) = Inr (k, c) \<and>
           Export_loader ''component'' (compiledFile c) \<in> set (n_exports acc')))"
  by (auto simp: emit_component_def split: if_splits sum.splits)

lemma emit_universal_roles:
  "emit_universal canon client vite node acc = Inr acc' \<Longrightarrow>
     concat (map lazy_role (n_exports acc')) = concat (map lazy_role (n_exports acc)) \<and>
     concat (map direct_role (n_exports acc')) =
       concat (map direct_role (n_exports acc)) @ (if truthy (universal node) then [''universal''] else []) \<and>
     set (n_imports acc) \<subseteq> set (n_imports acc') \<and>
     set (n_exports acc) \<subseteq> set (n_exports acc') \<and>
     (truthy (universal node) \<longrightarrow>
        (\<exists>f. manifest_file vite (the (universal node)) = Inr f \<and>
           Import_namespace ''universal'' f \<in> set (n_imports acc')))"
  by (auto simp: emit_universal_def split: if_splits sum.splits)

lemma emit_server_roles:
  "emit_server vite node acc = Inr acc' \<Longrightarrow>
     concat (map lazy_role (n_exports acc')) = concat (map lazy_role (n_exports acc)) \<and>
     concat (map direct_role (n_exports acc')) =
       concat (map direct_role (n_exports acc)) @ (if truthy (server node) then [''server''] else []) \<and>
     set (n_imports acc) \<subseteq> set (n_imports acc') \<and>
     set (n_exports acc) \<subseteq> set (n_exports acc') \<and>
     (truthy (server node) \<longrightarrow>
        (\<exists>f. manifest_file vite (the (server node)) = Inr f \<and>
           Import_namespace ''server'' f \<in> set (n_imports acc')))"
  by (auto simp: emit_server_def split: if_splits sum.splits)

lemma emit_node_steps:
  assumes "emit_node canon client vite lk i node = Inr m"
  obtains acc1 acc2 acc3 where
    "emit_component canon client vite node
       \<lparr>n_imports = [], n_exports = [Export_index i], n_imported = [],
        n_stylesheets = [], n_fonts = []\<rparr> = Inr acc1"
    "emit_universal canon client vite node acc1 = Inr acc2"
    "emit_server vite node acc2 = Inr acc3"
    "m_imports m = fst (inline_styles lk (n_stylesheets acc3) (n_imports acc3))"
    "m_exports m = n_exports acc3 @
        [Export_imports (n_imported acc3), Export_stylesheets (n_stylesheets acc3),
         Export_fonts (n_fonts acc3)] @
        (if snd (inline_styles lk (n_stylesheets acc3) (n_imports acc3)) \<noteq> []
         then [Export_inline_styles (snd (inline_styles lk (n_stylesheets acc3) (n_imports acc3)))]
         else [])"
  using assms
  by (auto simp: emit_node_def Let_def split: sum.splits prod.splits if_splits)

lemma inline_styles_imports:
  "set imps \<subseteq> set (fst (inline_styles lk fs imps))"
  by (simp add: inline_styles_def fst_fold_inline_style)

text \<open>
  Claim C4, as amended.  In the module of a node, the component is the only role
  behind a loader; the client logic (\<open>universal\<close>) and the server logic (\<open>server\<close>) are
  both imported statically and re-exported directly.
\<close>

theorem emit_node_roles:
  assumes "emit_node canon client vite lk i node = Inr m"
  shows "lazy_roles m = (if truthy (component node) then [''component''] else []) \<and>
     direct_roles m = (if truthy (universal node) then [''universal''] else []) @
                      (if truthy (server node) then [''server''] else []) \<and>
     (truthy (component node) \<longrightarrow>
        (\<exists>k c. resolve_symlinks canon vite (the (component node)) = Inr (k, c) \<and>
           Export_loader ''component'' (compiledFile c) \<in> set (m_exports m))) \<and>
     (truthy (universal node) \<longrightarrow>
        (\<exists>f. manifest_file vite (the (universal node)) = Inr f \<and>
           Import_namespace ''universal'' f \<in> set (m_imports m))) \<and>
     (truthy (server node) \<longrightarrow>
        (\<exists>f. manifest_file vite (the (server node)) = Inr f \<and>
           Import_namespace ''server'' f \<in> set (m_imports m)))"
proof -
  from assms obtain acc1 acc2 acc3 where
    c: "emit_component canon client vite node
       \<lparr>n_imports = [], n_exports = [Export_index i], n_imported = [],
        n_stylesheets = [], n_fonts = []\<rparr> = Inr acc1"
    and u: "emit_universal canon client vite node acc1 = Inr acc2"
    and s: "emit_server vite node acc2 = Inr acc3"
    and mi: "m_imports m = fst (inline_styles lk (n_stylesheets acc3) (n_imports acc3))"
    and me: "m_exports m = n_exports acc3 @
        [Export_imports (n_imported acc3), Export_stylesheets (n_stylesheets acc3),
         Export_fonts (n_fonts acc3)] @
        (if snd (inline_styles lk (n_stylesheets acc3) (n_imports acc3)) \<noteq> []
         then [Export_inline_styles (snd (inline_styles lk (n_stylesheets acc3) (n_imports acc3)))]
         else [])"
    by (rule emit_node_steps)
  note C = emit_component_roles [OF c]
  note U = emit_universal_roles [OF u]
  note S = emit_server_roles [OF s]
  have lazy: "lazy_roles m = (if truthy (component node) then [''component''] else [])"
    using C U S by (simp add: lazy_roles_def me)
  have direct: "direct_roles m = (if truthy (universal node) then [''universal''] else []) @
                      (if truthy (server node) then [''server''] else [])"
    using C U S by (simp add: direct_roles_def me)
  have exp: "set (n_exports acc1) \<subseteq> set (m_exports m)"
    using U S by (auto simp: me)
  have imp2: "set (n_imports acc2) \<subseteq> set (m_imports m)"
    using S inline_styles_imports [of "n_imports acc3" lk "n_stylesheets acc3"] by (auto simp: mi)
  have imp3: "set (n_imports acc3) \<subseteq> set (m_imports m)"
    using inline_styles_imports [of "n_imports acc3" lk "n_stylesheets acc3"] by (simp add: mi)
  have comp: "truthy (component node) \<longrightarrow>
        (\<exists>k c. resolve_symlinks canon vite (the (component node)) = Inr (k, c) \<and>
           Export_loader ''component'' (compiledFile c) \<in> set (m_exports m))"
    using C exp by blast
  have univ: "truthy (universal node) \<longrightarrow>
        (\<exists>f. manifest_file vite (the (universal node)) = Inr f \<and>
           Import_namespace ''universal'' f \<in> set (m_imports m))"
    using U imp2 by blast
  have serv: "truthy (server node) \<longrightarrow>
        (\<exists>f. manifest_file vite (the (server node)) = Inr f \<and>
           Import_namespace ''server'' f \<in> set (m_imports m))"
    using S imp3 by blast
  from lazy direct comp univ serv show ?thesis by blast
qed

lemmas example_defs = leaf_chunk_def page_client_def page_server_def
  find_deps_def resolve_symlinks_def resolver_init_def visit_def set_add_def
  emit_node_def emit_component_def emit_universal_def emit_server_def manifest_file_def
  inline_styles_def inline_style_def Let_def

text \<open>
  Claim C4 does not hold for the client logic: the module of a node with a
  \<open>universal\<close> file imports it statically and re-exports it, with no loader.
\<close>

theorem universal_not_lazy_counterexample:
  "emit_node (\<lambda>p. p) page_client page_server [] 0
      \<lparr>component = None, universal = Some ''src/routes/+page.js'', server = None\<rparr>
     = Inr \<lparr>m_imports = [Import_namespace ''universal'' ''entries/pages/_page.js''],
            m_exports = [Export_index 0, Export_name ''universal'', Export_imports [],
                         Export_stylesheets [], Export_fonts []]\<rparr> \<and>
   lazy_roles \<lparr>m_imports = [Import_namespace ''universal'' ''entries/pages/_page.js''],
            m_exports = [Export_index 0, Export_name ''universal'', Export_imports [],
                         Export_stylesheets [], Export_fonts []]\<rparr> = [] \<and>
   direct_roles \<lparr>m_imports = [Import_namespace ''universal'' ''entries/pages/_page.js''],
            m_exports = [Export_index 0, Export_name ''universal'', Export_imports [],
                         Export_stylesheets [], Export_fonts []]\<rparr> = [''universal'']"
  by (simp add: example_defs lazy_roles_def direct_roles_def)

text \<open>A node with all three roles, and a stylesheet that has a slot.\<close>

lemma emit_node_page:
  "emit_node (\<lambda>p. p) page_client page_server [(''_app/immutable/assets/2.css'', 0)] 2
      \<lparr>component = Some ''src/routes/+page.svelte'', universal = Some ''src/routes/+page.js'',
       server = Some ''src/routes/+page.server.js''\<rparr>
     = Inr \<lparr>m_imports = [Import_namespace ''universal'' ''entries/pages/_page.js'',
                         Import_namespace ''server'' ''entries/pages/_page.server.js'',
                         Import_stylesheet 0],
            m_exports = [Export_index 2,
                         Export_loader ''component'' ''entries/pages/_page.svelte.js'',
                         Export_file ''_app/immutable/nodes/2.js'',
                         Export_name ''universal'', Export_name ''server'',
                         Export_imports [],
                         Export_stylesheets [''_app/immutable/assets/2.css''],
                         Export_fonts [],
                         Export_inline_styles [(''_app/immutable/assets/2.css'', 0)]]\<rparr>"
  by (simp add: example_defs)

theorem emit_node_roles_witness:
  "lazy_roles \<lparr>m_imports = [Import_namespace ''universal'' ''entries/pages/_page.js'',
                         Import_namespace ''server'' ''entries/pages/_page.server.js'',
                         Import_stylesheet 0],
            m_exports = [Export_index 2,
                         Export_loader ''component'' ''entries/pages/_page.svelte.js'',
                         Export_file ''_app/immutable/nodes/2.js'',
                         Export_name ''universal'', Export_name ''server'',
                         Export_imports [],
                         Export_stylesheets [''_app/immutable/assets/2.css''],
                         Export_fonts [],
                         Export_inline_styles [(''_app/immutable/assets/2.css'', 0)]]\<rparr>
     = [''component''] \<and>
   direct_roles \<lparr>m_imports = [Import_namespace ''universal'' ''entries/pages/_page.js'',
                         Import_namespace ''server'' ''entries/pages/_page.server.js'',
                         Import_stylesheet 0],
            m_exports = [Export_index 2,
                         Export_loader ''component'' ''entries/pages/_page.svelte.js'',
                         Export_file ''_app/immutable/nodes/2.js'',
                         Export_name ''universal'', Export_name ''server'',
                         Export_imports [],
                         Export_stylesheets [''_app/immutable/assets/2.css''],
                         Export_fonts [],
                         Export_inline_styles [(''_app/immutable/assets/2.css'', 0)]]\<rparr>
     = [''universal'', ''server'']"
  using emit_node_roles [OF emit_node_page] by simp





lemma find_deps_present:
  "find_deps canon g p = Inr r \<Longrightarrow> \<exists>kc. resolve_symlinks canon g p = Inr kc"
  by (cases "resolve_symlinks canon g p") (simp_all add: find_deps_def)














section \<open>Properties of the route-method extractor\<close>

lemma set_methods_apply:
  "set_methods lookup f methods g =
     (if g = f then (case lookup f of None \<Rightarrow> methods g
                     | Some ex \<Rightarrow> Some (filter is_http_method ex))
      else methods g)"
  by (simp add: set_methods_def split: option.split)

lemma route_methods_apply:
  "route_methods lookup r methods g =
     (if g \<in> set (route_files r)
      then (case lookup g of None \<Rightarrow> methods g
            | Some ex \<Rightarrow> Some (filter is_http_method ex))
      else methods g)"
  by (auto simp: route_methods_def route_files_def Let_def set_methods_apply
      split: option.split)

lemma fold_route_methods_apply:
  "fold (route_methods lookup) rs methods g =
     (if g \<in> (\<Union>r \<in> set rs. set (route_files r))
      then (case lookup g of None \<Rightarrow> methods g
            | Some ex \<Rightarrow> Some (filter is_http_method ex))
      else methods g)"
proof (induction rs arbitrary: methods)
  case Nil
  show ?case by simp
next
  case (Cons r rs)
  have "fold (route_methods lookup) (r # rs) methods g =
        fold (route_methods lookup) rs (route_methods lookup r methods) g"
    by simp
  also have "\<dots> =
     (if g \<in> (\<Union>r \<in> set rs. set (route_files r))
      then (case lookup g of None \<Rightarrow> route_methods lookup r methods g
            | Some ex \<Rightarrow> Some (filter is_http_method ex))
      else route_methods lookup r methods g)"
    by (rule Cons.IH)
  also have "\<dots> =
     (if g \<in> (\<Union>r \<in> set (r # rs). set (route_files r))
      then (case lookup g of None \<Rightarrow> methods g
            | Some ex \<Rightarrow> Some (filter is_http_method ex))
      else methods g)"
    unfolding route_methods_apply by (auto split: option.split)
  finally show ?case .
qed

lemma get_methods_apply:
  "get_methods rel dir output rs g =
     (if g \<in> (\<Union>r \<in> set rs. set (route_files r))
      then map_option (filter is_http_method) (lookup_of rel dir output g)
      else None)"
  by (simp add: get_methods_def fold_route_methods_apply split: option.split)

lemma is_http_method_iff:
  "is_http_method m \<longleftrightarrow>
     m \<in> {''GET'', ''POST'', ''PUT'', ''PATCH'', ''DELETE'', ''OPTIONS'', ''HEAD''}"
  by (simp add: is_http_method_def http_methods_def)

lemma filter_example:
  "filter is_http_method [''GET'', ''POST'', ''config'', ''default''] = [''GET'', ''POST'']"
  by (simp add: is_http_method_def http_methods_def)

text \<open>
  Claim C6.  For a route of the manifest and a file of it (the endpoint's file or the
  leaf's server file) that has an export list in the compiled output, the entry of the
  method table for that file is that export list filtered by \<open>is_http_method\<close>, in the
  order of the export list; what is kept are the names of the fixed set; and the
  export list \<open>GET, POST, config, default\<close> gives \<open>GET, POST\<close>.
\<close>

theorem get_methods_filters:
  "r \<in> set rs \<Longrightarrow> f \<in> set (route_files r) \<Longrightarrow> lookup_of rel dir output f = Some ex \<Longrightarrow>
     get_methods rel dir output rs f = Some (filter is_http_method ex) \<and>
     set (filter is_http_method ex)
       = set ex \<inter> {''GET'', ''POST'', ''PUT'', ''PATCH'', ''DELETE'', ''OPTIONS'', ''HEAD''} \<and>
     (ex = [''GET'', ''POST'', ''config'', ''default'']
        \<longrightarrow> get_methods rel dir output rs f = Some [''GET'', ''POST''])"
proof -
  assume r: "r \<in> set rs" and f: "f \<in> set (route_files r)"
    and ex: "lookup_of rel dir output f = Some ex"
  have g: "get_methods rel dir output rs f = Some (filter is_http_method ex)"
    using r f ex by (auto simp: get_methods_apply)
  have s: "set (filter is_http_method ex)
       = set ex \<inter> {''GET'', ''POST'', ''PUT'', ''PATCH'', ''DELETE'', ''OPTIONS'', ''HEAD''}"
    using is_http_method_iff by auto
  show ?thesis
    using g s filter_example by simp
qed

text \<open>
  Claim C7.  A route none of whose files has an export list in the compiled output
  has no entry in the method table, and the table is the one of the other routes.
  \<open>get_methods\<close> has no failing branch: for every input it returns a table.
\<close>

theorem get_methods_omits:
  "\<forall>f \<in> set (route_files r). lookup_of rel dir output f = None \<Longrightarrow>
     get_methods rel dir output (rs1 @ r # rs2) = get_methods rel dir output (rs1 @ rs2) \<and>
     (\<forall>f \<in> set (route_files r). get_methods rel dir output (rs1 @ r # rs2) f = None)"
proof -
  assume none: "\<forall>f \<in> set (route_files r). lookup_of rel dir output f = None"
  have "get_methods rel dir output (rs1 @ r # rs2) g = get_methods rel dir output (rs1 @ rs2) g" for g
    using none by (auto simp: get_methods_apply)
  then have eq: "get_methods rel dir output (rs1 @ r # rs2) = get_methods rel dir output (rs1 @ rs2)"
    by (rule ext)
  have "\<forall>f \<in> set (route_files r). get_methods rel dir output (rs1 @ r # rs2) f = None"
    using none by (simp add: get_methods_apply)
  with eq show ?thesis by simp
qed


theorem get_methods_filters_witness:
  "get_methods (\<lambda>dir id. id) ''/app''
      [\<lparr>facadeModuleId = Some ''src/routes/api/+server.js'',
        exports = [''GET'', ''POST'', ''config'', ''default'']\<rparr>]
      [\<lparr>endpoint = Some \<lparr>ep_file = ''src/routes/api/+server.js''\<rparr>, leaf = None\<rparr>]
      ''src/routes/api/+server.js''
    = Some [''GET'', ''POST'']"
proof -
  let ?r = "\<lparr>endpoint = Some \<lparr>ep_file = ''src/routes/api/+server.js''\<rparr>, leaf = None\<rparr>"
  let ?out = "[\<lparr>facadeModuleId = Some ''src/routes/api/+server.js'',
        exports = [''GET'', ''POST'', ''config'', ''default'']\<rparr>]"
  have 1: "?r \<in> set [?r]" by simp
  have 2: "''src/routes/api/+server.js'' \<in> set (route_files ?r)"
    by (simp add: route_files_def)
  have 3: "lookup_of (\<lambda>dir id. id) ''/app'' ?out ''src/routes/api/+server.js''
      = Some [''GET'', ''POST'', ''config'', ''default'']"
    by (simp add: lookup_of_def lookup_step_def)
  show ?thesis
    using get_methods_filters [OF 1 2 3] by (simp add: is_http_method_def http_methods_def)
qed

theorem get_methods_omits_witness:
  "get_methods (\<lambda>dir id. id) ''/app''
      [\<lparr>facadeModuleId = Some ''src/routes/api/+server.js'', exports = [''GET'', ''default'']\<rparr>]
      [\<lparr>endpoint = Some \<lparr>ep_file = ''src/routes/api/+server.js''\<rparr>, leaf = None\<rparr>,
       \<lparr>endpoint = Some \<lparr>ep_file = ''src/routes/ghost/+server.js''\<rparr>,
        leaf = Some \<lparr>component = None, universal = None,
                     server = Some ''src/routes/ghost/+page.server.js''\<rparr>\<rparr>]
    = get_methods (\<lambda>dir id. id) ''/app''
      [\<lparr>facadeModuleId = Some ''src/routes/api/+server.js'', exports = [''GET'', ''default'']\<rparr>]
      [\<lparr>endpoint = Some \<lparr>ep_file = ''src/routes/api/+server.js''\<rparr>, leaf = None\<rparr>]"
proof -
  let ?g = "\<lparr>endpoint = Some \<lparr>ep_file = ''src/routes/ghost/+server.js''\<rparr>,
        leaf = Some \<lparr>component = None, universal = None,
                     server = Some ''src/routes/ghost/+page.server.js''\<rparr>\<rparr>"
  let ?out = "[\<lparr>facadeModuleId = Some ''src/routes/api/+server.js'', exports = [''GET'', ''default'']\<rparr>]"
  have none: "\<forall>f \<in> set (route_files ?g). lookup_of (\<lambda>dir id. id) ''/app'' ?out f = None"
    by (simp add: route_files_def lookup_of_def lookup_step_def)
  show ?thesis
    using get_methods_omits [OF none,
        of "[\<lparr>endpoint = Some \<lparr>ep_file = ''src/routes/api/+server.js''\<rparr>, leaf = None\<rparr>]" "[]"]
    by simp
qed
section \<open>Properties of the server entry generator\<close>

text \<open>
  Claim C8.  When the hooks file is found on disk, the hook loader of the generated
  module returns the deferred import of the hooks file (by its path relative to the
  generated module, which is not empty); when there is no hooks file, or it is not on
  disk, the loader returns the empty object.
\<close>

theorem get_hooks_of_hooks_file:
  "(hf = Some f \<and> existsSync f \<and> relative f \<noteq> [] \<longrightarrow>
      server_template_get_hooks s (hooks_option existsSync relative hf)
        = ''import('' @ s (relative f) @ '')'') \<and>
   (hf = None \<or> (hf = Some f \<and> \<not> existsSync f) \<longrightarrow>
      server_template_get_hooks s (hooks_option existsSync relative hf) = ''{}'')"
  by (auto simp: server_template_get_hooks_def hooks_option_def)

theorem get_hooks_of_hooks_file_witness:
  "server_template_get_hooks (\<lambda>x. CHR 0x22 # x @ [CHR 0x22])
      (hooks_option (\<lambda>p. p = ''src/hooks.server.js'') (\<lambda>p. ''../../'' @ p)
         (Some ''src/hooks.server.js''))
     = ''import('' @ [CHR 0x22] @ ''../../src/hooks.server.js'' @ [CHR 0x22] @ '')'' \<and>
   server_template_get_hooks (\<lambda>x. CHR 0x22 # x @ [CHR 0x22])
      (hooks_option (\<lambda>p. False) (\<lambda>p. ''../../'' @ p) (Some ''src/hooks.server.js''))
     = ''{}''"
  using get_hooks_of_hooks_file [of "Some ''src/hooks.server.js''" "''src/hooks.server.js''"
      "\<lambda>p. p = ''src/hooks.server.js''" "\<lambda>p. ''../../'' @ p" "\<lambda>x. CHR 0x22 # x @ [CHR 0x22]"]
    get_hooks_of_hooks_file [of "Some ''src/hooks.server.js''" "''src/hooks.server.js''"
      "\<lambda>p. False" "\<lambda>p. ''../../'' @ p" "\<lambda>x. CHR 0x22 # x @ [CHR 0x22]"]
  by simp

section \<open>Properties of \<open>Server.init\<close>\<close>

lemma fromEntries_snoc:
  "fromEntries (es @ [(k, v)]) = (fromEntries es)(k \<mapsto> v)"
  by (simp add: fromEntries_def)

lemma fromEntries_filter:
  "fromEntries (filter (\<lambda>(k, v). P k) es) k =
     (if P k then fromEntries es k else None)"
proof (induction es rule: rev_induct)
  case Nil
  show ?case by (simp add: fromEntries_def)
next
  case (snoc e es)
  obtain k' v' where e: "e = (k', v')" by (cases e)
  show ?case using snoc by (auto simp: e fromEntries_snoc)
qed

lemma dom_fromEntries: "dom (fromEntries es) = fst ` set es"
proof (induction es rule: rev_induct)
  case Nil
  show ?case by (simp add: fromEntries_def)
next
  case (snoc e es)
  obtain k' v' where e: "e = (k', v')" by (cases e)
  have "dom (fromEntries (es @ [e])) = insert k' (dom (fromEntries es))"
    unfolding e fromEntries_snoc by simp
  then show ?case using snoc by (simp add: e)
qed

lemma init_public_env:
  "public_env (snd (init pp gh entries srv)) k =
     (if startsWith k pp then fromEntries entries k else None)"
  by (simp add: init_def Let_def fromEntries_filter split: sum.split)

lemma init_private_env:
  "private_env (snd (init pp gh entries srv)) k =
     (if startsWith k pp then None else fromEntries entries k)"
  using fromEntries_filter [of "\<lambda>k. \<not> startsWith k pp" entries k]
  by (simp add: init_def Let_def split: sum.split)

text \<open>
  Claim C9.  After \<open>Server.init\<close>, whatever the environment mapping, a key of the
  mapping is in the public set exactly when it starts with the public prefix and in
  the private set exactly when it does not; each set holds the mapping's own value for
  its keys; the two sets are disjoint and their union is the set of all keys.
\<close>

theorem init_env_partition:
  "(k \<in> dom (public_env (snd (init pp gh entries srv)))
      \<longleftrightarrow> k \<in> fst ` set entries \<and> startsWith k pp) \<and>
   (k \<in> dom (private_env (snd (init pp gh entries srv)))
      \<longleftrightarrow> k \<in> fst ` set entries \<and> \<not> startsWith k pp) \<and>
   public_env (snd (init pp gh entries srv)) ++ private_env (snd (init pp gh entries srv))
      = fromEntries entries \<and>
   dom (public_env (snd (init pp gh entries srv)))
      \<inter> dom (private_env (snd (init pp gh entries srv))) = {} \<and>
   dom (public_env (snd (init pp gh entries srv)))
      \<union> dom (private_env (snd (init pp gh entries srv))) = fst ` set entries"
proof -
  let ?pub = "public_env (snd (init pp gh entries srv))"
  let ?prv = "private_env (snd (init pp gh entries srv))"
  have pub: "\<And>x. ?pub x = (if startsWith x pp then fromEntries entries x else None)"
    by (rule init_public_env)
  have prv: "\<And>x. ?prv x = (if startsWith x pp then None else fromEntries entries x)"
    by (rule init_private_env)
  have dpub: "dom ?pub = {x \<in> fst ` set entries. startsWith x pp}"
    unfolding dom_def pub using dom_fromEntries [of entries] by (auto simp: dom_def)
  have dprv: "dom ?prv = {x \<in> fst ` set entries. \<not> startsWith x pp}"
    unfolding dom_def prv using dom_fromEntries [of entries] by (auto simp: dom_def)
  have un: "?pub ++ ?prv = fromEntries entries"
    by (rule ext) (simp add: map_add_def pub prv split: option.split)
  show ?thesis
    unfolding un dpub dprv by auto
qed

theorem init_env_partition_witness:
  "''PUBLIC_URL'' \<in> dom (public_env (snd (init ''PUBLIC_'' (Inr \<lparr>handle = None, handleError = None, handleFetch = (None :: nat option)\<rparr>)
          [(''PUBLIC_URL'', ''u''), (''SECRET'', ''s'')]
          \<lparr>hooks = None, private_env = Map.empty, public_env = Map.empty\<rparr>))) \<and>
   ''SECRET'' \<in> dom (private_env (snd (init ''PUBLIC_'' (Inr \<lparr>handle = None, handleError = None, handleFetch = (None :: nat option)\<rparr>)
          [(''PUBLIC_URL'', ''u''), (''SECRET'', ''s'')]
          \<lparr>hooks = None, private_env = Map.empty, public_env = Map.empty\<rparr>)))"
proof -
  have a: "''PUBLIC_URL'' \<in> fst ` set [(''PUBLIC_URL'', ''u''), (''SECRET'', ''s'')] \<and> startsWith ''PUBLIC_URL'' ''PUBLIC_''"
    by (simp add: startsWith_def)
  have b: "''SECRET'' \<in> fst ` set [(''PUBLIC_URL'', ''u''), (''SECRET'', ''s'')] \<and> \<not> startsWith ''SECRET'' ''PUBLIC_''"
    by (simp add: startsWith_def)
  show ?thesis
    using a b
      init_env_partition [of "''PUBLIC_URL''" "''PUBLIC_''" "Inr \<lparr>handle = None, handleError = None, handleFetch = (None :: nat option)\<rparr>"
        "[(''PUBLIC_URL'', ''u''), (''SECRET'', ''s'')]"
        "\<lparr>hooks = None, private_env = Map.empty, public_env = Map.empty\<rparr>"]
      init_env_partition [of "''SECRET''" "''PUBLIC_''" "Inr \<lparr>handle = None, handleError = None, handleFetch = (None :: nat option)\<rparr>"
        "[(''PUBLIC_URL'', ''u''), (''SECRET'', ''s'')]"
        "\<lparr>hooks = None, private_env = Map.empty, public_env = Map.empty\<rparr>"]
    by blast
qed


text \<open>
  Claim C10.  When the hooks of a server are already set, a further call of
  \<open>Server.init\<close> (with any environment and any outcome of \<open>get_hooks()\<close>) raises nothing
  and leaves them as they are; and a call that returns normally leaves the hooks set.
  So after a first successful call every later call keeps the hooks of the first.
\<close>

theorem init_hooks_idempotent:
  "(hooks srv \<noteq> None \<longrightarrow>
      fst (init pp gh entries srv) = None \<and> hooks (snd (init pp gh entries srv)) = hooks srv) \<and>
   (fst (init pp gh entries srv) = None \<longrightarrow>
      hooks (snd (init pp gh entries srv)) \<noteq> None \<and>
      fst (init pp' gh' entries' (snd (init pp gh entries srv))) = None \<and>
      hooks (snd (init pp' gh' entries' (snd (init pp gh entries srv))))
        = hooks (snd (init pp gh entries srv)))"
  by (auto simp: init_def Let_def split: sum.splits)

theorem init_hooks_idempotent_witness:
  "fst (init ''PUBLIC_'' (Inr \<lparr>handle = Some (1::nat), handleError = None, handleFetch = None\<rparr>)
         [(''A'', ''1'')] \<lparr>hooks = None, private_env = Map.empty, public_env = Map.empty\<rparr>) = None \<and>
   hooks (snd (init ''PUBLIC_'' (Inr \<lparr>handle = Some (2::nat), handleError = Some 3, handleFetch = None\<rparr>)
         [(''B'', ''2'')]
         (snd (init ''PUBLIC_'' (Inr \<lparr>handle = Some (1::nat), handleError = None, handleFetch = None\<rparr>)
            [(''A'', ''1'')] \<lparr>hooks = None, private_env = Map.empty, public_env = Map.empty\<rparr>))))
     = Some \<lparr>hk_handle = Module_fn 1, hk_handleError = Default_fn, hk_handleFetch = Default_fn\<rparr>"
proof -
  have first: "fst (init ''PUBLIC_'' (Inr \<lparr>handle = Some (1::nat), handleError = None, handleFetch = None\<rparr>)
         [(''A'', ''1'')] \<lparr>hooks = None, private_env = Map.empty, public_env = Map.empty\<rparr>) = None"
    by (simp add: init_def Let_def)
  have h1: "hooks (snd (init ''PUBLIC_'' (Inr \<lparr>handle = Some (1::nat), handleError = None, handleFetch = None\<rparr>)
         [(''A'', ''1'')] \<lparr>hooks = None, private_env = Map.empty, public_env = Map.empty\<rparr>))
     = Some \<lparr>hk_handle = Module_fn 1, hk_handleError = Default_fn, hk_handleFetch = Default_fn\<rparr>"
    by (simp add: init_def Let_def)
  show ?thesis
    using first h1
      init_hooks_idempotent [of "\<lparr>hooks = None, private_env = Map.empty, public_env = Map.empty\<rparr>"
        "''PUBLIC_''" "Inr \<lparr>handle = Some (1::nat), handleError = None, handleFetch = None\<rparr>"
        "[(''A'', ''1'')]" "''PUBLIC_''"
        "Inr \<lparr>handle = Some (2::nat), handleError = Some 3, handleFetch = None\<rparr>" "[(''B'', ''2'')]"]
    by simp
qed

end
